theory Spec2Isabelle
  imports Complex_Main "HOL-Library.Char_ord" "HOL-Library.List_Lexorder"
    "HOL-Library.Finite_Map"
begin

section \<open>Values, errors and the Python list primitives\<close>

text \<open>
  The two scripts of the repository are embedded here: the crank voltage feature extraction
  (\<^verbatim>\<open>intelematics_write_features.py\<close>) and the search-result to CSV converter
  (\<^verbatim>\<open>intelematics_write_csv_from_es.py\<close>).

  Voltage samples are Python floats. They are modelled as exact reals: rounding error,
  overflow and infinities are not part of the model. The one non-finite float the code can
  produce from finite samples, the \<^verbatim>\<open>nan\<close> that numpy returns (with a warning, not an
  exception) for the mean or standard deviation of an empty sequence, is a value of its own.
  Every exception of the source is a value of \<open>error\<close>.
\<close>

datatype error = IndexError | ValueError | KeyError

datatype npfloat = Fin real | NaN

datatype pyval = PFloat npfloat | PStr string

text \<open>A crank message is a dict; \<open>None\<close> in a field means that the key is absent.\<close>

record crank =
  crank_profile :: "real list option"
  time :: "pyval option"

text \<open>\<^verbatim>\<open>xs[a:b]\<close> for non-negative bounds; \<^verbatim>\<open>xs[a:-k]\<close> is \<open>py_slice xs a (length xs - k)\<close>,
  the truncating subtraction being Python's clamping of the stop at 0.\<close>

definition py_slice :: "'a list \<Rightarrow> nat \<Rightarrow> nat \<Rightarrow> 'a list" where
  "py_slice xs a b = drop a (take b xs)"

text \<open>\<^verbatim>\<open>xs[i]\<close>: a negative index counts from the end, anything outside raises.\<close>

definition py_index :: "'a list \<Rightarrow> int \<Rightarrow> error + 'a" where
  "py_index xs i =
     (if 0 \<le> i then (if nat i < length xs then Inr (xs ! nat i) else Inl IndexError)
      else (if - i \<le> int (length xs) then Inr (xs ! nat (int (length xs) + i))
            else Inl IndexError))"

text \<open>The builtins \<^verbatim>\<open>max\<close> and \<^verbatim>\<open>min\<close> on a list: a scan that keeps the best value so far.\<close>

definition py_max :: "real list \<Rightarrow> error + real" where
  "py_max xs = (case xs of [] \<Rightarrow> Inl ValueError
                | x # rest \<Rightarrow> Inr (fold (\<lambda>y best. if best < y then y else best) rest x))"

definition py_min :: "real list \<Rightarrow> error + real" where
  "py_min xs = (case xs of [] \<Rightarrow> Inl ValueError
                | x # rest \<Rightarrow> Inr (fold (\<lambda>y best. if y < best then y else best) rest x))"

section \<open>The numpy, scipy and pandas functions the code calls\<close>

text \<open>\<^verbatim>\<open>np.argmin\<close>: index of the first occurrence of the minimum; an empty sequence raises.\<close>

fun argmin_scan :: "real list \<Rightarrow> nat \<Rightarrow> nat \<Rightarrow> real \<Rightarrow> nat" where
  "argmin_scan [] i best_i best = best_i"
| "argmin_scan (x # xs) i best_i best =
     (if x < best then argmin_scan xs (Suc i) i x else argmin_scan xs (Suc i) best_i best)"

definition np_argmin :: "real list \<Rightarrow> error + nat" where
  "np_argmin xs = (case xs of [] \<Rightarrow> Inl ValueError | x # rest \<Rightarrow> Inr (argmin_scan rest 1 0 x))"

definition np_mean :: "real list \<Rightarrow> npfloat" where
  "np_mean xs = (if xs = [] then NaN else Fin (sum_list xs / real (length xs)))"

text \<open>\<^verbatim>\<open>np.std\<close>: the population standard deviation (\<^verbatim>\<open>ddof = 0\<close>).\<close>

definition np_std :: "real list \<Rightarrow> npfloat" where
  "np_std xs =
     (if xs = [] then NaN
      else let mu = sum_list xs / real (length xs)
           in Fin (sqrt (sum_list (map (\<lambda>x. (x - mu)\<^sup>2) xs) / real (length xs))))"

definition np_times :: "real \<Rightarrow> npfloat \<Rightarrow> npfloat" where
  "np_times c f = (case f of NaN \<Rightarrow> NaN | Fin x \<Rightarrow> Fin (c * x))"

text \<open>\<^verbatim>\<open>point > limit\<close>: every comparison with \<^verbatim>\<open>nan\<close> is false.\<close>

definition np_greater :: "real \<Rightarrow> npfloat \<Rightarrow> bool" where
  "np_greater x f = (case f of NaN \<Rightarrow> False | Fin l \<Rightarrow> l < x)"

text \<open>\<^verbatim>\<open>np.round(x, d)\<close>: scale, round half to even, scale back.\<close>

definition rint :: "real \<Rightarrow> int" where
  "rint x =
     (let f = \<lfloor>x\<rfloor>; d = x - of_int f
      in if d < 1 / 2 then f else if 1 / 2 < d then f + 1 else if even f then f else f + 1)"

definition np_round :: "npfloat \<Rightarrow> nat \<Rightarrow> npfloat" where
  "np_round f d = (case f of NaN \<Rightarrow> NaN | Fin x \<Rightarrow> Fin (of_int (rint (x * 10 ^ d)) / 10 ^ d))"

text \<open>
  \<^verbatim>\<open>signal.argrelextrema(data, np.greater)[0]\<close> with the defaults \<^verbatim>\<open>order=1, mode='clip'\<close>:
  the ascending indices whose sample is strictly greater than both neighbours, the
  neighbour index being clipped to the array at either end (so no end point qualifies).
\<close>

definition argrelextrema_greater :: "real list \<Rightarrow> nat list" where
  "argrelextrema_greater data =
     filter (\<lambda>i. data ! min (i + 1) (length data - 1) < data ! i \<and> data ! (i - 1) < data ! i)
       [0..<length data]"

text \<open>
  \<^verbatim>\<open>Series.rolling(min_periods=1, window=w).mean().dropna().tolist()\<close>: at position \<open>i\<close> the
  mean of the samples at positions \<open>i - w + 1\<close> to \<open>i\<close> that exist. With \<^verbatim>\<open>min_periods=1\<close>
  no position is \<^verbatim>\<open>nan\<close>, so \<^verbatim>\<open>dropna\<close> drops nothing. An empty series (the minimum
  is the last sample of the profile) gives an empty list.
\<close>

definition rolling_mean :: "nat \<Rightarrow> real list \<Rightarrow> real list" where
  "rolling_mean w xs =
     map (\<lambda>i. let win = py_slice xs (Suc i - w) (Suc i) in sum_list win / real (length win))
       [0..<length xs]"

section \<open>The feature extraction\<close>

definition get_diff_times_10 :: "real list \<Rightarrow> real list" where
  "get_diff_times_10 domain =
     map (\<lambda>index. (domain ! (index + 1) - domain ! index) * 10) [0..<length domain - 1]"

definition get_end_of_mcv_domain :: "real list \<Rightarrow> error + nat" where
  "get_end_of_mcv_domain smoothed_trace =
     (case np_argmin smoothed_trace of Inl e \<Rightarrow> Inl e
      | Inr amin \<Rightarrow>
          let domain = get_diff_times_10
                         (py_slice smoothed_trace amin (length smoothed_trace - 30));
              limit = np_times (5 / 2) (np_std domain);
              end_candidates =
                map (\<lambda>(index, point). index + amin)
                  (filter (\<lambda>(index, point). np_greater point limit) (enumerate 0 domain))
          in if end_candidates = [] then Inl IndexError else Inr (last end_candidates))"

text \<open>The three conjuncts both branches of the loop of \<^verbatim>\<open>get_local_maxima\<close> test, in
  Python's order of evaluation, \<^verbatim>\<open>and\<close> cutting short.\<close>

definition peak_accepted :: "real list \<Rightarrow> nat \<Rightarrow> error + bool" where
  "peak_accepted smoothed_trace peak =
     (case py_index smoothed_trace (int peak) of Inl e \<Rightarrow> Inl e
      | Inr at_peak \<Rightarrow>
     (case py_index smoothed_trace (int peak - 10) of Inl e \<Rightarrow> Inl e
      | Inr v_before \<Rightarrow>
          if \<not> 1 / 10 < \<bar>at_peak - v_before\<bar> then Inr False
          else if \<not> v_before < at_peak then Inr False
          else (case py_index smoothed_trace (int peak + 10) of Inl e \<Rightarrow> Inl e
                | Inr v_after \<Rightarrow> Inr (v_after < at_peak))))"

text \<open>\<^verbatim>\<open>not previous\<close>: true of \<^verbatim>\<open>None\<close> and of the index 0.\<close>

definition not_previous :: "nat option \<Rightarrow> bool" where
  "not_previous previous = (case previous of None \<Rightarrow> True | Some p \<Rightarrow> p = 0)"

fun local_maxima_loop ::
  "real list \<Rightarrow> nat \<Rightarrow> nat list \<Rightarrow> nat list \<Rightarrow> nat option \<Rightarrow> error + nat list" where
  "local_maxima_loop smoothed_trace min_index [] local_maxima previous = Inr local_maxima"
| "local_maxima_loop smoothed_trace min_index (peak # peaks) local_maxima previous =
     (if not_previous previous then
        (case peak_accepted smoothed_trace peak of Inl e \<Rightarrow> Inl e
         | Inr ok \<Rightarrow>
             if ok then local_maxima_loop smoothed_trace min_index peaks
                          (local_maxima @ [peak + min_index]) (Some peak)
             else local_maxima_loop smoothed_trace min_index peaks local_maxima previous)
      else if \<not> 10 \<le> \<bar>int peak - int (the previous)\<bar> then
        local_maxima_loop smoothed_trace min_index peaks local_maxima previous
      else
        (case peak_accepted smoothed_trace peak of Inl e \<Rightarrow> Inl e
         | Inr ok \<Rightarrow>
             if ok then local_maxima_loop smoothed_trace min_index peaks
                          (local_maxima @ [peak + min_index]) (Some peak)
             else local_maxima_loop smoothed_trace min_index peaks local_maxima previous))"

definition get_local_maxima :: "real list \<Rightarrow> nat \<Rightarrow> error + nat list" where
  "get_local_maxima smoothed_trace min_index =
     local_maxima_loop smoothed_trace min_index
       (argrelextrema_greater (py_slice smoothed_trace 0 (length smoothed_trace - 10)))
       [] None"

text \<open>The function returns \<^verbatim>\<open>None\<close> by falling off its end when the loop finds no point.\<close>

definition project_last_maximum_on_curve :: "real list \<Rightarrow> nat \<Rightarrow> error + nat option" where
  "project_last_maximum_on_curve smoothed_trace last_maximum =
     (let domain = py_slice smoothed_trace (last_maximum + 10) (length smoothed_trace - 10)
      in case py_index smoothed_trace (int last_maximum) of Inl e \<Rightarrow> Inl e
         | Inr limit \<Rightarrow>
             Inr (case find (\<lambda>(index, point). limit < point) (enumerate 0 domain) of
                    None \<Rightarrow> None
                  | Some (index, point) \<Rightarrow> Some (last_maximum + index + 10)))"

definition get_iv :: "real list \<Rightarrow> nat \<Rightarrow> error + real" where
  "get_iv smoothed_trace minimum_index = py_max (py_slice smoothed_trace 0 (minimum_index + 1))"

definition get_lvv :: "real list \<Rightarrow> error + real" where
  "get_lvv smoothed_trace = py_min smoothed_trace"

text \<open>\<^verbatim>\<open>projection if projection else end_mcv_domain\<close>: the test is Python truthiness, false
  of \<^verbatim>\<open>None\<close> and of 0.\<close>

definition average_ends :: "nat option \<Rightarrow> nat \<Rightarrow> nat" where
  "average_ends projection end_mcv_domain =
     (case projection of None \<Rightarrow> end_mcv_domain
      | Some p \<Rightarrow> if p \<noteq> 0 then p else end_mcv_domain)"

definition get_mcv :: "real list \<Rightarrow> nat \<Rightarrow> error + npfloat" where
  "get_mcv smoothed_trace minimum_index =
     (case get_end_of_mcv_domain smoothed_trace of Inl e \<Rightarrow> Inl e
      | Inr end_mcv_domain \<Rightarrow>
     (case get_local_maxima (py_slice smoothed_trace minimum_index end_mcv_domain)
             minimum_index of Inl e \<Rightarrow> Inl e
      | Inr local_maxima \<Rightarrow>
          if local_maxima = [] then
            Inr (np_round (np_mean (py_slice smoothed_trace minimum_index end_mcv_domain)) 2)
          else
            (case project_last_maximum_on_curve smoothed_trace (last local_maxima) of
               Inl e \<Rightarrow> Inl e
             | Inr projection \<Rightarrow>
                 Inr (np_round (np_mean (py_slice smoothed_trace minimum_index
                        (average_ends projection end_mcv_domain))) 2))))"

definition get_smoothed_trace :: "crank \<Rightarrow> nat \<Rightarrow> error + real list" where
  "get_smoothed_trace c window =
     (case crank_profile c of None \<Rightarrow> Inl KeyError
      | Some profile \<Rightarrow>
     (case np_argmin profile of Inl e \<Rightarrow> Inl e
      | Inr index_min \<Rightarrow>
          Inr (py_slice profile 0 (index_min + 1) @
               rolling_mean window (py_slice profile (index_min + 1) (length profile)))))"

definition extract_features :: "crank \<Rightarrow> error + (string \<rightharpoonup> pyval)" where
  "extract_features c =
     (case get_smoothed_trace c 5 of Inl e \<Rightarrow> Inl e
      | Inr smoothed_trace \<Rightarrow>
     (case np_argmin smoothed_trace of Inl e \<Rightarrow> Inl e
      | Inr min_index \<Rightarrow>
     (case get_iv smoothed_trace min_index of Inl e \<Rightarrow> Inl e
      | Inr iv \<Rightarrow>
     (case get_mcv smoothed_trace min_index of Inl e \<Rightarrow> Inl e
      | Inr mcv \<Rightarrow>
     (case get_lvv smoothed_trace of Inl e \<Rightarrow> Inl e
      | Inr lvv \<Rightarrow>
     (case time c of None \<Rightarrow> Inl KeyError
      | Some t \<Rightarrow>
          Inr [''iv'' \<mapsto> PFloat (Fin iv), ''lvv'' \<mapsto> PFloat (Fin lvv),
               ''mcv'' \<mapsto> PFloat mcv, ''time'' \<mapsto> t]))))))"

text \<open>
  The upper bound of the averaging window as the specification words it: the domain end when
  no local maximum is accepted, otherwise the first absolute index between
  \<open>last_maximum + 10\<close> and \<open>len - 10\<close> whose sample strictly exceeds the sample at the last
  maximum, and the domain end again when there is none.
\<close>

definition spec_mcv_upper_bound :: "real list \<Rightarrow> nat \<Rightarrow> nat \<Rightarrow> nat" where
  "spec_mcv_upper_bound smoothed_trace min_index domain_end =
     (case get_local_maxima (py_slice smoothed_trace min_index domain_end) min_index of
        Inl e \<Rightarrow> domain_end
      | Inr [] \<Rightarrow> domain_end
      | Inr (a # as) \<Rightarrow>
          (case filter (\<lambda>j. smoothed_trace ! last (a # as) < smoothed_trace ! j)
                  [last (a # as) + 10..<length smoothed_trace - 10] of
             [] \<Rightarrow> domain_end
           | j # js \<Rightarrow> j))"

section \<open>The search-result to CSV converter\<close>

text \<open>
  Of a parsed result document the loop reads \<^verbatim>\<open>data['hits']['hits']\<close> and of every hit its
  \<^verbatim>\<open>'_source'\<close> dict: a document is the list of these dicts, each a finite map from field
  names to values. \<open>str\<close> is Python's conversion of a field value to text. The file is the
  text written to it; \<^verbatim>\<open>print(key)\<close> goes to the console and is left out. Python orders
  strings by code point, \<open>string\<close> by character code.
\<close>

definition sorted_keys :: "(string, 'v) fmap \<Rightarrow> string list" where
  "sorted_keys source = sorted_list_of_fset (fmdom source)"

text \<open>One row of the file: every cell followed by a comma, then the line break.\<close>

definition write_row :: "string list \<Rightarrow> string" where
  "write_row cells = concat (map (\<lambda>cell. cell @ '','') cells) @ [CHR 0x0A]"

definition result_cells :: "('v \<Rightarrow> string) \<Rightarrow> (string, 'v) fmap \<Rightarrow> string list" where
  "result_cells str source = map (\<lambda>key. str (the (fmlookup source key))) (sorted_keys source)"

definition write_csv :: "('v \<Rightarrow> string) \<Rightarrow> (string, 'v) fmap list \<Rightarrow> error + string" where
  "write_csv str hits =
     (case hits of [] \<Rightarrow> Inl IndexError
      | first_hit # others \<Rightarrow>
          Inr (write_row (sorted_keys first_hit) @
               concat (map (\<lambda>line. write_row (result_cells str line)) hits)))"

section \<open>Inputs used in the examples\<close>

text \<open>The 33-sample profile of the round-trip scenario of the specification.\<close>

definition scenario_profile :: "real list" where
  "scenario_profile =
     [10, 9, 8, 2, 3, 5, 9, 12, 11, 10, 9, 8, 7, 7,
      6, 6, 6, 6, 6, 6, 6, 6, 6, 6, 6, 6, 6, 6, 6, 6, 6, 6, 6]"

text \<open>A 34-sample profile with its minimum at index 1 and a steady rise after it.\<close>

definition rising_profile :: "real list" where
  "rising_profile =
     [2, 0, 1, 3, 3, 3, 3, 3, 3, 3, 3, 3, 3, 3,
      3, 3, 3, 3, 3, 3, 3, 3, 3, 3, 3, 3, 3, 3,
      3, 3, 3, 3, 3, 3]"

text \<open>A flat profile: 40 samples of 5 volts, no surge anywhere.\<close>

definition flat_profile :: "real list" where
  "flat_profile =
     [5, 5, 5, 5, 5, 5, 5, 5, 5, 5, 5, 5, 5, 5,
      5, 5, 5, 5, 5, 5, 5, 5, 5, 5, 5, 5, 5, 5,
      5, 5, 5, 5, 5, 5, 5, 5, 5, 5, 5, 5]"

text \<open>A 13-sample trace with one spike at index 1.\<close>

definition spike_trace :: "real list" where
  "spike_trace = [0, 5, 0, 0, 0, 0, 0, 0, 0, 0, 0, 0, 0]"

text \<open>The spike followed, twelve samples later, by a recovery above the spike's 5 volts.\<close>

definition recovery_trace :: "real list" where
  "recovery_trace = spike_trace @ [1, 6, 7, 0, 0, 0, 0, 0, 0, 0, 0, 0, 0]"

text \<open>The smoothed trace of \<open>rising_profile\<close>.\<close>

definition rising_trace :: "real list" where
  "rising_trace =
     [2, 0, 1, 2, 7 / 3, 5 / 2, 13 / 5, 3, 3, 3, 3, 3, 3, 3,
      3, 3, 3, 3, 3, 3, 3, 3, 3, 3, 3, 3, 3, 3,
      3, 3, 3, 3, 3, 3]"

definition rising_crank :: crank where
  "rising_crank = \<lparr>crank_profile = Some rising_profile, time = Some (PStr ''2018-11-26T07:36'')\<rparr>"

definition flat_crank :: crank where
  "flat_crank = \<lparr>crank_profile = Some flat_profile, time = Some (PStr ''2018-11-26T07:36'')\<rparr>"

text \<open>The smoothed trace of \<open>scenario_profile\<close>.\<close>

definition scenario_trace :: "real list" where
  "scenario_trace =
     [10, 9, 8, 2, 3, 4, 17 / 3, 29 / 4, 8, 47 / 5, 51 / 5, 10, 9, 41 / 5,
      37 / 5, 34 / 5, 32 / 5, 31 / 5, 6, 6, 6, 6, 6, 6, 6, 6, 6, 6,
      6, 6, 6, 6, 6]"

definition scenario_crank :: crank where
  "scenario_crank =
     \<lparr>crank_profile = Some scenario_profile, time = Some (PStr ''2018-11-26T07:36'')\<rparr>"

text \<open>
  A 50-sample profile with a bump after its minimum and a late surge, and its smoothed
  trace: the bump is an accepted local maximum and the surge carries its projection.
\<close>

definition surge_profile :: "real list" where
  "surge_profile =
     [12, 3, 6, 7, 8, 9, 10, 9 / 2, 9 / 2, 9 / 2, 9 / 2, 9 / 2, 9 / 2, 9 / 2, 9 / 2, 9 / 2,
      9 / 2, 9 / 2, 9 / 2, 20, 20, 20, 20, 20, 20, 20, 20, 20, 20, 20, 20, 20, 20, 20, 20,
      20, 20, 20, 20, 20, 20, 20, 20, 20, 20, 20, 20, 20, 20, 20]"

definition surge_trace :: "real list" where
  "surge_trace =
     [12, 3, 6, 13 / 2, 7, 15 / 2, 8, 77 / 10, 36 / 5, 13 / 2, 28 / 5, 9 / 2, 9 / 2, 9 / 2,
      9 / 2, 9 / 2, 9 / 2, 9 / 2, 9 / 2, 38 / 5, 107 / 10, 69 / 5, 169 / 10, 20, 20, 20, 20,
      20, 20, 20, 20, 20, 20, 20, 20, 20, 20, 20, 20, 20, 20, 20, 20, 20, 20, 20, 20, 20,
      20, 20]"

definition surge_crank :: crank where
  "surge_crank = \<lparr>crank_profile = Some surge_profile, time = Some (PStr ''2018-11-26T07:36'')\<rparr>"

text \<open>Two result documents: one whose hits share their field names, one whose hits do not.\<close>

definition hit_b1_a2 :: "(string, string) fmap" where
  "hit_b1_a2 = fmap_of_list [(''b'', ''1''), (''a'', ''2'')]"

definition hit_a3_b4 :: "(string, string) fmap" where
  "hit_a3_b4 = fmap_of_list [(''a'', ''3''), (''b'', ''4'')]"

definition hit_a1 :: "(string, string) fmap" where
  "hit_a1 = fmap_of_list [(''a'', ''1'')]"

definition hit_b2 :: "(string, string) fmap" where
  "hit_b2 = fmap_of_list [(''b'', ''2'')]"

definition uniform_hits :: "(string, string) fmap list" where
  "uniform_hits = [hit_b1_a2, hit_a3_b4]"

definition mixed_hits :: "(string, string) fmap list" where
  "mixed_hits = [hit_a1, hit_b2]"

section \<open>Facts about the library functions\<close>

lemma argmin_scan_spec:
  assumes "xs = drop i ys" "i \<le> length ys" "bi < i" "bv = ys ! bi"
    "\<forall>j<i. bv \<le> ys ! j" "\<forall>j<bi. bv < ys ! j"
  shows "argmin_scan xs i bi bv < length ys \<and>
         (\<forall>j<length ys. ys ! argmin_scan xs i bi bv \<le> ys ! j) \<and>
         (\<forall>j<argmin_scan xs i bi bv. ys ! argmin_scan xs i bi bv < ys ! j)"
  using assms
proof (induction xs arbitrary: i bi bv)
  case Nil
  then show ?case by auto
next
  case (Cons x xs)
  have i: "i < length ys"
  proof (rule ccontr)
    assume "\<not> i < length ys"
    then have "drop i ys = []" by simp
    with Cons.prems(1) show False by simp
  qed
  have "ys ! i # drop (Suc i) ys = x # xs"
    using Cons_nth_drop_Suc[OF i] Cons.prems(1) by simp
  then have x: "x = ys ! i" and xs: "xs = drop (Suc i) ys"
    by simp_all
  show ?case
  proof (cases "x < bv")
    case True
    have "argmin_scan xs (Suc i) i x < length ys \<and>
         (\<forall>j<length ys. ys ! argmin_scan xs (Suc i) i x \<le> ys ! j) \<and>
         (\<forall>j<argmin_scan xs (Suc i) i x. ys ! argmin_scan xs (Suc i) i x < ys ! j)"
      using Cons.prems True i x
      by (intro Cons.IH[OF xs]) (auto simp: less_Suc_eq)
    with True show ?thesis by simp
  next
    case False
    have "argmin_scan xs (Suc i) bi bv < length ys \<and>
         (\<forall>j<length ys. ys ! argmin_scan xs (Suc i) bi bv \<le> ys ! j) \<and>
         (\<forall>j<argmin_scan xs (Suc i) bi bv. ys ! argmin_scan xs (Suc i) bi bv < ys ! j)"
      using Cons.prems False i x
      by (intro Cons.IH[OF xs]) (auto simp: less_Suc_eq)
    with False show ?thesis by simp
  qed
qed

lemma np_argmin_spec:
  assumes "np_argmin xs = Inr m"
  shows "m < length xs \<and> (\<forall>j<length xs. xs ! m \<le> xs ! j) \<and> (\<forall>j<m. xs ! m < xs ! j)"
proof (cases xs)
  case Nil
  with assms show ?thesis by (simp add: np_argmin_def)
next
  case (Cons x rest)
  have "argmin_scan rest 1 0 x < length xs \<and>
        (\<forall>j<length xs. xs ! argmin_scan rest 1 0 x \<le> xs ! j) \<and>
        (\<forall>j<argmin_scan rest 1 0 x. xs ! argmin_scan rest 1 0 x < xs ! j)"
    by (rule argmin_scan_spec) (auto simp: Cons)
  moreover have "m = argmin_scan rest 1 0 x" using assms Cons by (simp add: np_argmin_def)
  ultimately show ?thesis by simp
qed

lemma np_argmin_nonempty: "xs \<noteq> [] \<Longrightarrow> \<exists>m. np_argmin xs = Inr m"
  by (cases xs) (auto simp: np_argmin_def)

lemma np_argmin_empty: "np_argmin [] = Inl ValueError"
  by (simp add: np_argmin_def)


lemma fold_max_eq: "fold (\<lambda>y best. if best < y then y else best) xs (x::real) = Max (insert x (set xs))"
proof (induction xs arbitrary: x)
  case Nil then show ?case by simp
next
  case (Cons a xs)
  have "Max (insert (if x < a then a else x) (set xs)) = Max (insert x (insert a (set xs)))"
    by (cases "set xs = {}") (auto simp: max_def)
  with Cons show ?case by simp
qed

lemma fold_min_eq: "fold (\<lambda>y best. if y < best then y else best) xs (x::real) = Min (insert x (set xs))"
proof (induction xs arbitrary: x)
  case Nil then show ?case by simp
next
  case (Cons a xs)
  have "Min (insert (if a < x then a else x) (set xs)) = Min (insert x (insert a (set xs)))"
    by (cases "set xs = {}") (auto simp: min_def)
  with Cons show ?case by simp
qed

lemma py_max_eq: "xs \<noteq> [] \<Longrightarrow> py_max xs = Inr (Max (set xs))"
  by (cases xs) (simp_all add: py_max_def fold_max_eq)

lemma py_min_eq: "xs \<noteq> [] \<Longrightarrow> py_min xs = Inr (Min (set xs))"
  by (cases xs) (simp_all add: py_min_def fold_min_eq)

section \<open>The example cranks, evaluated\<close>

lemma rising_smoothed: "get_smoothed_trace rising_crank 5 = Inr rising_trace"
  by (simp add: get_smoothed_trace_def rising_crank_def rising_profile_def np_argmin_def
      py_slice_def rolling_mean_def rising_trace_def)

lemma rising_argmin: "np_argmin rising_trace = Inr (Suc 0)"
  by (simp add: np_argmin_def rising_trace_def)

lemma rising_domain_end: "get_end_of_mcv_domain rising_trace = Inr 2"
  by (simp add: get_end_of_mcv_domain_def rising_argmin)
    (simp add: rising_trace_def py_slice_def get_diff_times_10_def
      np_std_def np_times_def np_greater_def)

lemma rint_0: "rint 0 = 0"
  by (simp add: rint_def)

lemma rising_mcv: "get_mcv rising_trace (Suc 0) = Inr (Fin 0)"
  by (simp add: get_mcv_def rising_domain_end)
    (simp add: rising_trace_def get_local_maxima_def argrelextrema_greater_def py_slice_def
      np_mean_def np_round_def rint_0)

lemma rising_iv: "get_iv rising_trace (Suc 0) = Inr 2"
  by (simp add: get_iv_def py_max_def py_slice_def rising_trace_def)

lemma rising_lvv: "get_lvv rising_trace = Inr 0"
  by (simp add: get_lvv_def py_min_def rising_trace_def)

lemma rising_features:
  "extract_features rising_crank =
     Inr [''iv'' \<mapsto> PFloat (Fin 2), ''lvv'' \<mapsto> PFloat (Fin 0), ''mcv'' \<mapsto> PFloat (Fin 0),
          ''time'' \<mapsto> PStr ''2018-11-26T07:36'']"
  by (simp add: extract_features_def rising_smoothed rising_argmin rising_iv rising_mcv
      rising_lvv)
    (simp add: rising_crank_def)

section \<open>The projection of the last maximum\<close>

text \<open>
  Claim C10. For every smoothed trace and every last maximum index at least 1, a result of
  \<open>project_last_maximum_on_curve\<close> is either no index or an index at least
  \<open>last_maximum + 10\<close>, never 0. So the truthiness test of \<open>get_mcv\<close> takes the domain end
  exactly when there is no projection, and the projection itself otherwise.
\<close>

theorem project_last_maximum_never_zero:
  assumes "1 \<le> last_maximum"
    and "project_last_maximum_on_curve smoothed_trace last_maximum = Inr projection"
  shows "(projection = None \<or> (\<exists>p. projection = Some p \<and> last_maximum + 10 \<le> p \<and> p \<noteq> 0)) \<and>
         average_ends projection end_mcv_domain =
           (case projection of None \<Rightarrow> end_mcv_domain | Some p \<Rightarrow> p)"
  using assms
  by (auto simp: project_last_maximum_on_curve_def average_ends_def Let_def
      split: sum.splits option.splits prod.splits)

theorem project_last_maximum_never_zero_witness:
  "project_last_maximum_on_curve recovery_trace 1 = Inr (Some 14) \<and>
   average_ends (Some 14) 7 = 14"
proof -
  have h: "project_last_maximum_on_curve recovery_trace 1 = Inr (Some 14)"
    by (simp add: project_last_maximum_on_curve_def recovery_trace_def spike_trace_def
        py_slice_def py_index_def)
  have "(1::nat) \<le> 1" by simp
  from project_last_maximum_never_zero[OF this h, of 7] h show ?thesis by simp
qed

section \<open>The feature record\<close>

text \<open>
  Claim C8. Whenever the extraction succeeds, the feature record has exactly the four keys
  \<open>iv\<close>, \<open>lvv\<close>, \<open>mcv\<close> and \<open>time\<close>, and its \<open>time\<close> entry is the value of the crank's
  \<open>time\<close> key, unchanged.
\<close>

theorem extract_features_keys:
  assumes "extract_features c = Inr features"
  shows "dom features = {''iv'', ''lvv'', ''mcv'', ''time''} \<and> features ''time'' = time c"
proof -
  from assms obtain iv lvv mcv t where t: "time c = Some t"
    and f: "features = [''iv'' \<mapsto> PFloat (Fin iv), ''lvv'' \<mapsto> PFloat (Fin lvv),
                        ''mcv'' \<mapsto> PFloat mcv, ''time'' \<mapsto> t]"
    by (auto simp: extract_features_def split: sum.splits option.splits)
  have "dom features = {''iv'', ''lvv'', ''mcv'', ''time''}"
    unfolding f by auto
  moreover have "features ''time'' = time c"
    unfolding f t by simp
  ultimately show ?thesis by simp
qed

theorem extract_features_keys_witness:
  "\<exists>features. extract_features rising_crank = Inr features \<and>
     dom features = {''iv'', ''lvv'', ''mcv'', ''time''} \<and>
     features ''time'' = Some (PStr ''2018-11-26T07:36'')"
  using extract_features_keys[OF rising_features] rising_features
  by (simp add: rising_crank_def)

section \<open>Initial voltage and low valley voltage\<close>

lemma take_Suc_argmin_nonempty: "np_argmin t = Inr m \<Longrightarrow> py_slice t 0 (m + 1) \<noteq> []"
  by (cases t) (simp_all add: np_argmin_def py_slice_def)

lemma get_iv_eq:
  assumes "np_argmin t = Inr m"
  shows "get_iv t m = Inr (Max (set (take (Suc m) t)))"
  using py_max_eq[OF take_Suc_argmin_nonempty[OF assms]]
  by (simp add: get_iv_def py_slice_def)

lemma get_lvv_eq: "t \<noteq> [] \<Longrightarrow> get_lvv t = Inr (Min (set t))"
  by (simp add: get_lvv_def py_min_eq)

lemma Max_take_char:
  assumes "m < length t"
  shows "(\<exists>i\<le>m. t ! i = Max (set (take (Suc m) t))) \<and> (\<forall>i\<le>m. t ! i \<le> Max (set (take (Suc m) t)))"
proof -
  define M where "M = Max (set (take (Suc m) t))"
  have s: "set (take (Suc m) t) = (!) t ` {0..<Suc m}"
    using assms by (intro nth_image[symmetric]) simp
  have ne: "set (take (Suc m) t) \<noteq> {}" using assms by (cases t) auto
  have "M \<in> set (take (Suc m) t)"
    unfolding M_def by (rule Max_in) (use ne in auto)
  then have "M \<in> (!) t ` {0..<Suc m}" using s by simp
  then have 1: "\<exists>i\<le>m. t ! i = M" by (auto simp: less_Suc_eq_le)
  have 2: "\<forall>i\<le>m. t ! i \<le> M"
  proof (intro allI impI)
    fix i assume "i \<le> m"
    then have "t ! i \<in> (!) t ` {0..<Suc m}" by auto
    then have "t ! i \<in> set (take (Suc m) t)" using s by simp
    then show "t ! i \<le> M" unfolding M_def by (intro Max_ge) auto
  qed
  from 1 2 show ?thesis unfolding M_def by blast
qed

lemma Min_list_char:
  assumes "t \<noteq> []"
  shows "(\<exists>i<length t. t ! i = Min (set t)) \<and> (\<forall>i<length t. Min (set t) \<le> t ! i)"
proof -
  have "Min (set t) \<in> set t" by (rule Min_in) (use assms in auto)
  then have "\<exists>i<length t. t ! i = Min (set t)" by (simp add: in_set_conv_nth)
  moreover have "\<forall>i<length t. Min (set t) \<le> t ! i" by (auto intro: Min_le)
  ultimately show ?thesis by blast
qed

text \<open>
  Claim C7. Whenever the extraction succeeds, the \<open>iv\<close> field is the maximum of the smoothed
  trace over the indices 0 to \<open>min_index\<close> inclusive (it is one of these samples and none of
  them is greater), and the \<open>lvv\<close> field is the minimum of the whole smoothed trace (it is
  one of its samples and no sample is smaller).
\<close>

theorem extract_features_iv_lvv:
  assumes "extract_features c = Inr features"
  shows "\<exists>t m iv lvv. get_smoothed_trace c 5 = Inr t \<and> np_argmin t = Inr m \<and>
           features ''iv'' = Some (PFloat (Fin iv)) \<and>
           features ''lvv'' = Some (PFloat (Fin lvv)) \<and>
           (\<exists>i\<le>m. t ! i = iv) \<and> (\<forall>i\<le>m. t ! i \<le> iv) \<and>
           (\<exists>i<length t. t ! i = lvv) \<and> (\<forall>i<length t. lvv \<le> t ! i)"
proof -
  from assms obtain t m iv lvv mcv ts where t: "get_smoothed_trace c 5 = Inr t"
    and m: "np_argmin t = Inr m" and iv: "get_iv t m = Inr iv" and lvv: "get_lvv t = Inr lvv"
    and f: "features = [''iv'' \<mapsto> PFloat (Fin iv), ''lvv'' \<mapsto> PFloat (Fin lvv),
                        ''mcv'' \<mapsto> PFloat mcv, ''time'' \<mapsto> ts]"
    by (auto simp: extract_features_def split: sum.splits option.splits)
  from np_argmin_spec[OF m] have ml: "m < length t" by simp
  then have ne: "t \<noteq> []" by auto
  have iv': "iv = Max (set (take (Suc m) t))" using iv get_iv_eq[OF m] by simp
  have lvv': "lvv = Min (set t)" using lvv get_lvv_eq[OF ne] by simp
  have "features ''iv'' = Some (PFloat (Fin iv))" "features ''lvv'' = Some (PFloat (Fin lvv))"
    unfolding f by simp_all
  with t m Max_take_char[OF ml] Min_list_char[OF ne] show ?thesis
    unfolding iv' lvv' by blast
qed

theorem extract_features_iv_lvv_witness:
  "\<exists>features. extract_features rising_crank = Inr features \<and>
     get_smoothed_trace rising_crank 5 = Inr rising_trace \<and> np_argmin rising_trace = Inr 1 \<and>
     features ''iv'' = Some (PFloat (Fin 2)) \<and> features ''lvv'' = Some (PFloat (Fin 0)) \<and>
     rising_trace ! 0 = 2 \<and> rising_trace ! 1 = 0"
proof -
  from extract_features_iv_lvv[OF rising_features] obtain t m iv lvv where
    "get_smoothed_trace rising_crank 5 = Inr t" "np_argmin t = Inr m"
    "[''iv'' \<mapsto> PFloat (Fin 2), ''lvv'' \<mapsto> PFloat (Fin 0), ''mcv'' \<mapsto> PFloat (Fin 0),
      ''time'' \<mapsto> PStr ''2018-11-26T07:36''] ''iv'' = Some (PFloat (Fin iv))"
    "[''iv'' \<mapsto> PFloat (Fin 2), ''lvv'' \<mapsto> PFloat (Fin 0), ''mcv'' \<mapsto> PFloat (Fin 0),
      ''time'' \<mapsto> PStr ''2018-11-26T07:36''] ''lvv'' = Some (PFloat (Fin lvv))"
    by blast
  then have "t = rising_trace" "m = 1" "iv = 2" "lvv = 0"
    using rising_smoothed rising_argmin by simp_all
  moreover have "rising_trace ! 0 = 2" "rising_trace ! 1 = 0"
    by (simp_all add: rising_trace_def)
  ultimately show ?thesis using rising_features rising_smoothed rising_argmin by simp
qed

section \<open>The domain end and the discarded crank\<close>

lemma end_candidates_empty:
  assumes "np_argmin t = Inr m"
    and "\<forall>d\<in>set (get_diff_times_10 (py_slice t m (length t - 30))).
           \<not> np_greater d
               (np_times (5 / 2) (np_std (get_diff_times_10 (py_slice t m (length t - 30)))))"
  shows "get_end_of_mcv_domain t = Inl IndexError"
proof -
  let ?domain = "get_diff_times_10 (py_slice t m (length t - 30))"
  let ?limit = "np_times (5 / 2) (np_std ?domain)"
  have "filter (\<lambda>(index, point). np_greater point ?limit) (enumerate 0 ?domain) = []"
    using assms(2) by (auto simp: filter_empty_conv in_set_enumerate_eq)
  then show ?thesis
    using assms(1) by (simp add: get_end_of_mcv_domain_def Let_def)
qed

lemma flat_smoothed: "get_smoothed_trace flat_crank 5 = Inr flat_profile"
  by (simp add: get_smoothed_trace_def flat_crank_def flat_profile_def np_argmin_def
      py_slice_def rolling_mean_def)

lemma flat_argmin: "np_argmin flat_profile = Inr 0"
  by (simp add: np_argmin_def flat_profile_def)

lemma flat_diff:
  "get_diff_times_10 (py_slice flat_profile 0 (length flat_profile - 30)) =
     [0, 0, 0, 0, 0, 0, 0, 0, 0]"
  by (simp add: get_diff_times_10_def py_slice_def flat_profile_def)

text \<open>
  Claim C2. If no element of the scaled first difference of \<^verbatim>\<open>smoothed_trace[argmin:-30]\<close>
  strictly exceeds 2.5 times the standard deviation of that difference sequence, then
  \<open>get_end_of_mcv_domain\<close> raises the out-of-range error and \<open>extract_features\<close> raises it
  too: no feature record, default or partial, is returned.
\<close>

theorem no_surge_discards_crank:
  assumes "get_smoothed_trace c 5 = Inr t" and "np_argmin t = Inr m"
    and "\<forall>d\<in>set (get_diff_times_10 (py_slice t m (length t - 30))).
           \<not> np_greater d
               (np_times (5 / 2) (np_std (get_diff_times_10 (py_slice t m (length t - 30)))))"
  shows "get_end_of_mcv_domain t = Inl IndexError \<and> extract_features c = Inl IndexError"
proof -
  have e: "get_end_of_mcv_domain t = Inl IndexError"
    using end_candidates_empty[OF assms(2,3)] .
  then have "get_mcv t m = Inl IndexError" by (simp add: get_mcv_def)
  then have "extract_features c = Inl IndexError"
    using assms(1,2) get_iv_eq[OF assms(2)] by (simp add: extract_features_def)
  with e show ?thesis by simp
qed

theorem no_surge_discards_crank_witness:
  "get_end_of_mcv_domain flat_profile = Inl IndexError \<and>
   extract_features flat_crank = Inl IndexError"
proof -
  have "\<forall>d\<in>set (get_diff_times_10 (py_slice flat_profile 0 (length flat_profile - 30))).
           \<not> np_greater d (np_times (5 / 2)
               (np_std (get_diff_times_10 (py_slice flat_profile 0 (length flat_profile - 30)))))"
    unfolding flat_diff by (simp add: np_std_def np_times_def np_greater_def)
  from no_surge_discards_crank[OF flat_smoothed flat_argmin this] show ?thesis .
qed

section \<open>The round-trip scenario\<close>

lemma scenario_smoothed:
  "get_smoothed_trace \<lparr>crank_profile = Some scenario_profile, time = ts\<rparr> 5 = Inr scenario_trace"
  by (simp add: get_smoothed_trace_def scenario_profile_def np_argmin_def
      py_slice_def rolling_mean_def scenario_trace_def)

lemma scenario_argmin: "np_argmin scenario_trace = Inr 3"
  by (simp add: np_argmin_def scenario_trace_def)

lemma scenario_iv: "get_iv scenario_trace 3 = Inr 10"
  by (simp add: get_iv_def py_max_def py_slice_def scenario_trace_def)

lemma scenario_lvv: "get_lvv scenario_trace = Inr 2"
  by (simp add: get_lvv_def py_min_def scenario_trace_def)

lemma scenario_domain_end: "get_end_of_mcv_domain scenario_trace = Inl IndexError"
  by (simp add: get_end_of_mcv_domain_def scenario_argmin)
    (simp add: scenario_trace_def py_slice_def get_diff_times_10_def np_std_def np_times_def)

lemma scenario_domain: "py_slice scenario_trace 3 (length scenario_trace - 30) = []"
  by (simp add: scenario_trace_def py_slice_def)

text \<open>
  Claim C3, as amended. For the 33-sample profile of the scenario and any timestamp, the
  smoothed trace has its minimum 2 at index 3 and the maximum 10 before it, but
  \<^verbatim>\<open>smoothed_trace[3:-30]\<close> is empty, so the domain end detection finds no candidate and
  \<open>extract_features\<close> raises the out-of-range error instead of returning a feature record.
\<close>

theorem scenario_raises:
  "get_smoothed_trace \<lparr>crank_profile = Some scenario_profile, time = ts\<rparr> 5 = Inr scenario_trace \<and>
   np_argmin scenario_trace = Inr 3 \<and>
   get_lvv scenario_trace = Inr 2 \<and> get_iv scenario_trace 3 = Inr 10 \<and>
   py_slice scenario_trace 3 (length scenario_trace - 30) = [] \<and>
   get_end_of_mcv_domain scenario_trace = Inl IndexError \<and>
   extract_features \<lparr>crank_profile = Some scenario_profile, time = ts\<rparr> = Inl IndexError"
  by (simp add: extract_features_def scenario_smoothed scenario_argmin scenario_iv scenario_lvv
      scenario_domain scenario_domain_end get_mcv_def)

text \<open>The claim as stated, that the extraction of the scenario succeeds, fails.\<close>

theorem scenario_counterexample:
  "\<not> (\<exists>features. extract_features scenario_crank = Inr features)"
  by (simp add: extract_features_def scenario_crank_def scenario_smoothed scenario_argmin
      scenario_iv scenario_domain_end get_mcv_def)

section \<open>The smoothing stage\<close>

lemma sum_list_py_slice:
  assumes "b \<le> length xs"
  shows "sum_list (py_slice xs a b) = (\<Sum>j = a..<b. (xs ! j :: real))"
proof (cases "a \<le> b")
  case False
  then show ?thesis by (simp add: py_slice_def)
next
  case True
  have len: "length (py_slice xs a b) = b - a"
    using assms by (simp add: py_slice_def)
  have "sum_list (py_slice xs a b) = (\<Sum>i = 0..<b - a. py_slice xs a b ! i)"
    using len by (simp add: sum_list_sum_nth)
  also have "\<dots> = (\<Sum>i = 0..<b - a. xs ! (i + a))"
    using assms by (intro sum.cong) (auto simp: py_slice_def add.commute)
  also have "\<dots> = (\<Sum>j = 0 + a..<(b - a) + a. xs ! j)"
    by (rule sum.shift_bounds_nat_ivl[symmetric])
  finally show ?thesis using True by simp
qed

lemma rolling_mean_length: "length (rolling_mean w xs) = length xs"
  by (simp add: rolling_mean_def)

lemma rolling_mean_nth:
  assumes "k < length xs"
  shows "rolling_mean w xs ! k =
           (\<Sum>j = Suc k - w..<Suc k. xs ! j) / real (Suc k - (Suc k - w))"
proof -
  have "Suc k \<le> length xs" using assms by simp
  then have "sum_list (py_slice xs (Suc k - w) (Suc k)) = (\<Sum>j = Suc k - w..<Suc k. xs ! j)"
    by (rule sum_list_py_slice)
  moreover have "length (py_slice xs (Suc k - w) (Suc k)) = Suc k - (Suc k - w)"
    using assms by (simp add: py_slice_def)
  ultimately show ?thesis using assms by (simp add: rolling_mean_def Let_def)
qed

lemma get_smoothed_trace_nth:
  assumes "crank_profile c = Some profile" and "np_argmin profile = Inr m"
  shows "\<exists>t. get_smoothed_trace c 5 = Inr t \<and> length t = length profile \<and>
           (\<forall>i\<le>m. t ! i = profile ! i) \<and>
           (\<forall>i. m < i \<and> i < length profile \<longrightarrow>
              t ! i = (\<Sum>j = max (Suc m) (Suc i - 5)..i. profile ! j) /
                        real (Suc i - max (Suc m) (Suc i - 5)))"
proof -
  define t where "t = py_slice profile 0 (m + 1) @
                      rolling_mean 5 (py_slice profile (m + 1) (length profile))"
  from np_argmin_spec[OF assms(2)] have ml: "m < length profile" by simp
  have t: "get_smoothed_trace c 5 = Inr t"
    using assms by (simp add: get_smoothed_trace_def t_def)
  have pre: "py_slice profile 0 (m + 1) = take (Suc m) profile"
    by (simp add: py_slice_def)
  have suf: "py_slice profile (m + 1) (length profile) = drop (Suc m) profile"
    by (simp add: py_slice_def)
  have t_eq: "t = take (Suc m) profile @ rolling_mean 5 (drop (Suc m) profile)"
    unfolding t_def pre suf ..
  have len: "length t = length profile"
    using ml by (simp add: t_eq rolling_mean_length)
  have prefix: "\<forall>i\<le>m. t ! i = profile ! i"
    using ml by (simp add: t_eq nth_append)
  have suffix: "t ! i = (\<Sum>j = max (Suc m) (Suc i - 5)..i. profile ! j) /
                          real (Suc i - max (Suc m) (Suc i - 5))"
    if "m < i" "i < length profile" for i
  proof -
    define k where "k = i - Suc m"
    have i: "i = Suc m + k" using that by (simp add: k_def)
    have k: "k < length (drop (Suc m) profile)" using that by (simp add: k_def)
    have "t ! i = rolling_mean 5 (drop (Suc m) profile) ! k"
      using ml that by (simp add: t_eq nth_append k_def)
    also have "\<dots> = (\<Sum>j = Suc k - 5..<Suc k. drop (Suc m) profile ! j) /
                       real (Suc k - (Suc k - 5))"
      by (rule rolling_mean_nth[OF k])
    also have "(\<Sum>j = Suc k - 5..<Suc k. drop (Suc m) profile ! j) =
               (\<Sum>j = Suc k - 5..<Suc k. profile ! (j + Suc m))"
      using that by (intro sum.cong) (auto simp: k_def add.commute)
    also have "\<dots> = (\<Sum>j = (Suc k - 5) + Suc m..<Suc k + Suc m. profile ! j)"
      by (rule sum.shift_bounds_nat_ivl[symmetric])
    also have "{(Suc k - 5) + Suc m..<Suc k + Suc m} = {max (Suc m) (Suc i - 5)..i}"
      using i by auto
    also have "Suc k - (Suc k - 5) = Suc i - max (Suc m) (Suc i - 5)"
      using i by auto
    finally show ?thesis .
  qed
  from t len prefix suffix show ?thesis by blast
qed



text \<open>
  Claim C5. For every non-empty profile, \<open>get_smoothed_trace\<close> returns the prefix of the
  profile up to and including the index \<open>m\<close> of its global minimum, unaltered, followed by
  the trailing moving average of the rest: the sample at an index \<open>i\<close> after \<open>m\<close> is the mean
  of the profile over the last five indices up to \<open>i\<close>, or over all the indices from
  \<open>m + 1\<close> to \<open>i\<close> while there are fewer than five. The result is as long as the profile.
\<close>

theorem get_smoothed_trace_shape:
  assumes "crank_profile c = Some profile" and "profile \<noteq> []"
  shows "\<exists>t m. get_smoothed_trace c 5 = Inr t \<and> np_argmin profile = Inr m \<and>
           length t = length profile \<and>
           (\<forall>i\<le>m. t ! i = profile ! i) \<and>
           (\<forall>i. m < i \<and> i < length profile \<longrightarrow>
              t ! i = (\<Sum>j = max (Suc m) (Suc i - 5)..i. profile ! j) /
                        real (Suc i - max (Suc m) (Suc i - 5)))"
proof -
  from np_argmin_nonempty[OF assms(2)] obtain m where m: "np_argmin profile = Inr m" ..
  from get_smoothed_trace_nth[OF assms(1) m] m show ?thesis by blast
qed

theorem get_smoothed_trace_shape_witness:
  "\<exists>t. get_smoothed_trace scenario_crank 5 = Inr t \<and> length t = 33 \<and>
     t ! 0 = 10 \<and> t ! 3 = 2 \<and> t ! 4 = 3 \<and> t ! 5 = (3 + 5) / 2 \<and>
     t ! 8 = (3 + 5 + 9 + 12 + 11) / 5 \<and> t ! 9 = (5 + 9 + 12 + 11 + 10) / 5"
proof -
  have p: "crank_profile scenario_crank = Some scenario_profile" "scenario_profile \<noteq> []"
    by (simp_all add: scenario_crank_def scenario_profile_def)
  have m: "np_argmin scenario_profile = Inr 3"
    by (simp add: np_argmin_def scenario_profile_def)
  from get_smoothed_trace_shape[OF p] m obtain t where
    t: "get_smoothed_trace scenario_crank 5 = Inr t" and len: "length t = length scenario_profile"
    and prefix: "\<forall>i\<le>3. t ! i = scenario_profile ! i"
    and suffix: "\<forall>i. 3 < i \<and> i < length scenario_profile \<longrightarrow>
              t ! i = (\<Sum>j = max (Suc 3) (Suc i - 5)..i. scenario_profile ! j) /
                        real (Suc i - max (Suc 3) (Suc i - 5))"
    by auto
  have "t = scenario_trace" using t scenario_smoothed by (simp add: scenario_crank_def)
  then show ?thesis using t len by (simp add: scenario_trace_def scenario_profile_def)
qed



section \<open>Local maxima\<close>

lemma peak_accepted_in_range:
  assumes "peak + 10 < length s"
  shows "\<exists>b. peak_accepted s peak = Inr b"
  using assms
  by (auto simp: peak_accepted_def py_index_def split: sum.splits)

lemma argrelextrema_greater_bounds:
  assumes "p \<in> set (argrelextrema_greater d)"
  shows "0 < p \<and> p + 1 < length d \<and> d ! (p - 1) < d ! p \<and> d ! (p + 1) < d ! p"
proof -
  from assms have p: "p < length d" and r: "d ! min (p + 1) (length d - 1) < d ! p"
    and l: "d ! (p - 1) < d ! p"
    by (auto simp: argrelextrema_greater_def)
  from l have "0 < p" by (cases p) auto
  moreover have pl: "p + 1 < length d"
  proof (rule ccontr)
    assume "\<not> p + 1 < length d"
    with p have "min (p + 1) (length d - 1) = p" by auto
    then have "d ! min (p + 1) (length d - 1) = d ! p" by (rule arg_cong)
    with r show False by linarith
  qed
  moreover from this have "min (p + 1) (length d - 1) = p + 1" by auto
  ultimately show ?thesis using r l by simp
qed

lemma peaks_in_range:
  assumes "p \<in> set (argrelextrema_greater (py_slice s 0 (length s - 10)))"
  shows "0 < p \<and> p + 11 < length s"
  using argrelextrema_greater_bounds[OF assms] by (auto simp: py_slice_def)

lemma peak_accepted_True:
  assumes "peak + 10 < length s" and "peak_accepted s peak = Inr True"
  shows "1 / 10 < \<bar>s ! peak - (if 10 \<le> peak then s ! (peak - 10) else s ! (length s + peak - 10))\<bar> \<and>
         (if 10 \<le> peak then s ! (peak - 10) else s ! (length s + peak - 10)) < s ! peak \<and>
         s ! (peak + 10) < s ! peak"
proof -
  have 1: "py_index s (int peak) = Inr (s ! peak)"
    using assms(1) by (simp add: py_index_def)
  have 2: "py_index s (int peak - 10) =
             Inr (if 10 \<le> peak then s ! (peak - 10) else s ! (length s + peak - 10))"
  proof (cases "10 \<le> peak")
    case True
    then have "nat (int peak - 10) = peak - 10" by simp
    with True assms(1) show ?thesis by (simp add: py_index_def)
  next
    case False
    then have "nat (int (length s) + (int peak - 10)) = length s + peak - 10"
      using assms(1) by simp
    with False assms(1) show ?thesis by (simp add: py_index_def)
  qed
  have 3: "py_index s (int peak + 10) = Inr (s ! (peak + 10))"
  proof -
    have "nat (int peak + 10) = peak + 10" by simp
    with assms(1) show ?thesis by (simp add: py_index_def)
  qed
  from assms(2) show ?thesis
    unfolding peak_accepted_def 1 2 3 by (simp split: if_splits)
qed

lemma local_maxima_loop_spaced:
  assumes "sorted_wrt (<) peaks" and "\<forall>p\<in>set peaks. 0 < p \<and> p + 10 < length s"
    and "(prev = None \<and> acc = []) \<or>
         (\<exists>q. prev = Some q \<and> 0 < q \<and> acc \<noteq> [] \<and> last acc = q + mi \<and> (\<forall>p\<in>set peaks. q < p))"
    and "successively (\<lambda>a b. a + 10 \<le> b) acc"
  shows "\<exists>lms. local_maxima_loop s mi peaks acc prev = Inr lms \<and>
           successively (\<lambda>a b. a + 10 \<le> b) lms \<and>
           set lms \<subseteq> set acc \<union> (\<lambda>p. p + mi) ` {p \<in> set peaks. peak_accepted s p = Inr True}"
  using assms
proof (induction peaks arbitrary: acc prev)
  case Nil
  then show ?case by simp
next
  case (Cons peak peaks)
  let ?R = "\<lambda>a b::nat. a + 10 \<le> b"
  let ?A = "\<lambda>ps. (\<lambda>p. p + mi) ` {p \<in> set ps. peak_accepted s p = Inr True}"
  have sorted: "sorted_wrt (<) peaks" and above: "\<forall>p\<in>set peaks. peak < p"
    using Cons.prems(1) by auto
  have range: "\<forall>p\<in>set peaks. 0 < p \<and> p + 10 < length s" and pk: "0 < peak" "peak + 10 < length s"
    using Cons.prems(2) by auto
  from peak_accepted_in_range[OF pk(2)] obtain b where b: "peak_accepted s peak = Inr b" ..
  have skip: "\<exists>lms. local_maxima_loop s mi peaks acc prev = Inr lms \<and> successively ?R lms \<and>
                set lms \<subseteq> set acc \<union> ?A (peak # peaks)"
  proof -
    have "(prev = None \<and> acc = []) \<or>
         (\<exists>q. prev = Some q \<and> 0 < q \<and> acc \<noteq> [] \<and> last acc = q + mi \<and> (\<forall>p\<in>set peaks. q < p))"
      using Cons.prems(3) by auto
    from Cons.IH[OF sorted range this Cons.prems(4)] show ?thesis by auto
  qed
  have take: "\<exists>lms. local_maxima_loop s mi peaks (acc @ [peak + mi]) (Some peak) = Inr lms \<and>
                successively ?R lms \<and> set lms \<subseteq> set acc \<union> ?A (peak # peaks)"
    if ok: "b" and sp: "acc = [] \<or> last acc + 10 \<le> peak + mi"
  proof -
    have inv: "(Some peak = None \<and> acc @ [peak + mi] = []) \<or>
         (\<exists>q. Some peak = Some q \<and> 0 < q \<and> acc @ [peak + mi] \<noteq> [] \<and>
              last (acc @ [peak + mi]) = q + mi \<and> (\<forall>p\<in>set peaks. q < p))"
      using pk above by simp
    have succ: "successively ?R (acc @ [peak + mi])"
      using Cons.prems(4) sp by (auto simp: successively_append_iff)
    from Cons.IH[OF sorted range inv succ] obtain lms where
      l: "local_maxima_loop s mi peaks (acc @ [peak + mi]) (Some peak) = Inr lms"
         "successively ?R lms"
         "set lms \<subseteq> set (acc @ [peak + mi]) \<union> ?A peaks" by blast
    have "set lms \<subseteq> set acc \<union> ?A (peak # peaks)"
      using l(3) b ok by auto
    with l(1,2) show ?thesis by blast
  qed
  show ?case
  proof (cases "not_previous prev")
    case True
    with Cons.prems(3) have e: "prev = None" "acc = []"
      by (auto simp: not_previous_def)
    show ?thesis
    proof (cases b)
      case True
      from take[OF True] e obtain lms where
        "local_maxima_loop s mi peaks (acc @ [peak + mi]) (Some peak) = Inr lms"
        "successively ?R lms" "set lms \<subseteq> set acc \<union> ?A (peak # peaks)" by blast
      with b True \<open>not_previous prev\<close> show ?thesis by simp
    next
      case False
      with skip b \<open>not_previous prev\<close> show ?thesis by simp
    qed
  next
    case np: False
    with Cons.prems(3) obtain q where q: "prev = Some q" "0 < q" "acc \<noteq> []"
      "last acc = q + mi" "q < peak"
      by (auto simp: not_previous_def)
    show ?thesis
    proof (cases "10 \<le> \<bar>int peak - int q\<bar>")
      case far: True
      then have sp: "acc = [] \<or> last acc + 10 \<le> peak + mi" using q by simp
      show ?thesis
      proof (cases b)
        case True
        from take[OF True sp] obtain lms where
          "local_maxima_loop s mi peaks (acc @ [peak + mi]) (Some peak) = Inr lms"
          "successively ?R lms" "set lms \<subseteq> set acc \<union> ?A (peak # peaks)" by blast
        with b True np far q(1) show ?thesis by simp
      next
        case False
        with skip b np far q(1) show ?thesis by simp
      qed
    next
      case False
      with skip np q(1) show ?thesis by simp
    qed
  qed
qed

lemma argrelextrema_greater_sorted: "sorted_wrt (<) (argrelextrema_greater d)"
  by (simp add: argrelextrema_greater_def sorted_wrt_filter)

lemma get_local_maxima_accepted:
  "\<exists>lms. get_local_maxima s mi = Inr lms \<and>
     successively (\<lambda>a b. a + 10 \<le> b) lms \<and>
     (\<forall>a\<in>set lms. \<exists>p. a = p + mi \<and> 0 < p \<and> p + 11 < length s \<and>
        s ! (p - 1) < s ! p \<and> s ! (p + 1) < s ! p \<and>
        1 / 10 < \<bar>s ! p - (if 10 \<le> p then s ! (p - 10) else s ! (length s + p - 10))\<bar> \<and>
        (if 10 \<le> p then s ! (p - 10) else s ! (length s + p - 10)) < s ! p \<and>
        s ! (p + 10) < s ! p)"
proof -
  let ?d = "py_slice s 0 (length s - 10)"
  let ?peaks = "argrelextrema_greater ?d"
  have rng: "\<forall>p\<in>set ?peaks. 0 < p \<and> p + 10 < length s"
    using peaks_in_range[of _ s] by fastforce
  have "(None = None \<and> [] = []) \<or>
         (\<exists>q. (None::nat option) = Some q \<and> 0 < q \<and> ([]::nat list) \<noteq> [] \<and> last [] = q + mi \<and> (\<forall>p\<in>set ?peaks. q < p))"
    by simp
  from local_maxima_loop_spaced[OF argrelextrema_greater_sorted rng this, of ] obtain lms where
    l: "local_maxima_loop s mi ?peaks [] None = Inr lms"
       "successively (\<lambda>a b. a + 10 \<le> b) lms"
       "set lms \<subseteq> (\<lambda>p. p + mi) ` {p \<in> set ?peaks. peak_accepted s p = Inr True}"
    by auto
  have "\<exists>p. a = p + mi \<and> 0 < p \<and> p + 11 < length s \<and>
        s ! (p - 1) < s ! p \<and> s ! (p + 1) < s ! p \<and>
        1 / 10 < \<bar>s ! p - (if 10 \<le> p then s ! (p - 10) else s ! (length s + p - 10))\<bar> \<and>
        (if 10 \<le> p then s ! (p - 10) else s ! (length s + p - 10)) < s ! p \<and>
        s ! (p + 10) < s ! p" if "a \<in> set lms" for a
  proof -
    from that l(3) obtain p where p: "a = p + mi" "p \<in> set ?peaks" "peak_accepted s p = Inr True"
      by auto
    note b = argrelextrema_greater_bounds[OF p(2)] peaks_in_range[OF p(2)]
    then have r: "p + 10 < length s" by simp
    have "p + 11 < length s" using peaks_in_range[OF p(2)] by blast
    then have "p - 1 < length s - 10" "p < length s - 10" "p + 1 < length s - 10"
      by linarith+
    then have "?d ! (p - 1) = s ! (p - 1)" "?d ! p = s ! p" "?d ! (p + 1) = s ! (p + 1)"
      unfolding py_slice_def drop_0 by (simp_all only: nth_take)
    with b peak_accepted_True[OF r p(3)] p(1) show ?thesis by auto
  qed
  with l(1,2) show ?thesis by (auto simp: get_local_maxima_def)
qed

section \<open>The rows of the CSV file\<close>

lemma sorted_keys_props:
  "sorted (sorted_keys source) \<and> distinct (sorted_keys source) \<and>
   set (sorted_keys source) = fset (fmdom source)"
  by (simp add: sorted_keys_def sorted_list_of_fset.rep_eq)

lemma sorted_keys_lookup:
  assumes "key \<in> set (sorted_keys source)"
  shows "\<exists>v. fmlookup source key = Some v"
proof -
  from assms have "key |\<in>| fmdom source" using sorted_keys_props[of source] by simp
  then show ?thesis by (auto simp: fmdom.rep_eq dom_def)
qed

lemma example_keys:
  "sorted_keys hit_b1_a2 = [''a'', ''b'']" "sorted_keys hit_a3_b4 = [''a'', ''b'']"
  "sorted_keys hit_a1 = [''a'']" "sorted_keys hit_b2 = [''b'']"
  by code_simp+

lemma example_cells:
  "result_cells (\<lambda>v. v) hit_b1_a2 = [''2'', ''1'']"
  "result_cells (\<lambda>v. v) hit_a3_b4 = [''3'', ''4'']"
  "result_cells (\<lambda>v. v) hit_a1 = [''1'']" "result_cells (\<lambda>v. v) hit_b2 = [''2'']"
  by (simp_all add: result_cells_def example_keys)
    (simp_all add: hit_b1_a2_def hit_a3_b4_def hit_a1_def hit_b2_def)

lemma uniform_csv:
  "write_csv (\<lambda>v. v) uniform_hits = Inr ''a,b,\<newline>2,1,\<newline>3,4,\<newline>''"
  by (simp add: write_csv_def uniform_hits_def example_keys example_cells write_row_def)

text \<open>
  Claim C9, as amended. For every result document with at least one hit, the converter
  writes a header row of the field names of the first hit in sorted order, without
  repetition, and then one row per hit holding the values of that hit in the sorted order
  of that hit's own field names. A row lists its values in the order of the header
  whenever the hit has the same field names as the first hit.
\<close>

theorem write_csv_rows:
  assumes "hits \<noteq> []"
  shows "write_csv str hits =
           Inr (write_row (sorted_keys (hd hits)) @
                concat (map (\<lambda>line. write_row (result_cells str line)) hits)) \<and>
         sorted (sorted_keys (hd hits)) \<and> distinct (sorted_keys (hd hits)) \<and>
         set (sorted_keys (hd hits)) = fset (fmdom (hd hits)) \<and>
         (\<forall>line\<in>set hits.
            length (result_cells str line) = length (sorted_keys line) \<and>
            (\<forall>i<length (sorted_keys line). \<exists>v.
               fmlookup line (sorted_keys line ! i) = Some v \<and> result_cells str line ! i = str v) \<and>
            (fmdom line = fmdom (hd hits) \<longrightarrow>
               result_cells str line =
                 map (\<lambda>key. str (the (fmlookup line key))) (sorted_keys (hd hits))))"
proof -
  have out: "write_csv str hits =
           Inr (write_row (sorted_keys (hd hits)) @
                concat (map (\<lambda>line. write_row (result_cells str line)) hits))"
    using assms by (cases hits) (simp_all add: write_csv_def)
  have cells: "length (result_cells str line) = length (sorted_keys line) \<and>
            (\<forall>i<length (sorted_keys line). \<exists>v.
               fmlookup line (sorted_keys line ! i) = Some v \<and> result_cells str line ! i = str v) \<and>
            (fmdom line = fmdom (hd hits) \<longrightarrow>
               result_cells str line =
                 map (\<lambda>key. str (the (fmlookup line key))) (sorted_keys (hd hits)))" for line
  proof -
    have "\<exists>v. fmlookup line (sorted_keys line ! i) = Some v \<and> result_cells str line ! i = str v"
      if "i < length (sorted_keys line)" for i
    proof -
      from that have "sorted_keys line ! i \<in> set (sorted_keys line)" by simp
      from sorted_keys_lookup[OF this] obtain v where "fmlookup line (sorted_keys line ! i) = Some v" ..
      with that show ?thesis by (simp add: result_cells_def)
    qed
    moreover have "fmdom line = fmdom (hd hits) \<Longrightarrow> sorted_keys line = sorted_keys (hd hits)"
      by (simp add: sorted_keys_def)
    ultimately show ?thesis by (simp add: result_cells_def)
  qed
  from out sorted_keys_props[of "hd hits"] cells show ?thesis by blast
qed

theorem write_csv_rows_witness:
  "write_csv (\<lambda>v. v) uniform_hits = Inr ''a,b,\<newline>2,1,\<newline>3,4,\<newline>'' \<and>
   sorted_keys (hd uniform_hits) = [''a'', ''b''] \<and>
   result_cells (\<lambda>v. v) hit_b1_a2 =
     map (\<lambda>key. the (fmlookup hit_b1_a2 key)) (sorted_keys (hd uniform_hits)) \<and>
   result_cells (\<lambda>v. v) hit_a3_b4 =
     map (\<lambda>key. the (fmlookup hit_a3_b4 key)) (sorted_keys (hd uniform_hits))"
proof -
  have ne: "uniform_hits \<noteq> []" by (simp add: uniform_hits_def)
  have "fmdom hit_a3_b4 = fmdom hit_b1_a2"
    by (auto simp: hit_b1_a2_def hit_a3_b4_def)
  then have dom: "\<forall>line\<in>set uniform_hits. fmdom line = fmdom (hd uniform_hits)"
    by (simp add: uniform_hits_def)
  have hd: "sorted_keys (hd uniform_hits) = [''a'', ''b'']"
    by (simp add: uniform_hits_def example_keys)
  have mem: "hit_b1_a2 \<in> set uniform_hits" "hit_a3_b4 \<in> set uniform_hits"
    by (simp_all add: uniform_hits_def)
  from write_csv_rows[OF ne, of "\<lambda>v. v"] dom mem hd uniform_csv show ?thesis by simp
qed

text \<open>
  The claim as stated, for every document, fails twice: a document without hits raises the
  out-of-range error and nothing is written, and in a document whose second hit has a
  field the first lacks, the value of that field is written under another field's header.
\<close>

theorem write_csv_counterexample:
  "write_csv (\<lambda>v. v) ([] :: (string, string) fmap list) = Inl IndexError \<and>
   write_csv (\<lambda>v. v) mixed_hits = Inr ''a,\<newline>1,\<newline>2,\<newline>'' \<and>
   sorted_keys (mixed_hits ! 0) = [''a''] \<and> sorted_keys (mixed_hits ! 1) = [''b'']"
  by (simp add: write_csv_def mixed_hits_def example_keys example_cells write_row_def)

section \<open>The mean crank voltage\<close>

lemma find_enumerate_slice:
  assumes "b \<le> length t"
  shows "find (\<lambda>(index, point). P point) (enumerate n (drop a (take b t))) =
           (case filter (\<lambda>j. P (t ! j)) [a..<b] of
              [] \<Rightarrow> None
            | j # js \<Rightarrow> Some (j - a + n, t ! j))"
  using assms
proof (induction "b - a" arbitrary: a n)
  case 0
  then show ?case by simp
next
  case (Suc k)
  then have ab: "a < b" and al: "a < length (take b t)" by simp_all
  have d: "drop a (take b t) = t ! a # drop (Suc a) (take b t)"
    using Cons_nth_drop_Suc[OF al] ab by simp
  have u: "[a..<b] = a # [Suc a..<b]" using ab by (simp add: upt_conv_Cons)
  show ?case
  proof (cases "P (t ! a)")
    case True
    then show ?thesis by (simp add: d u)
  next
    case False
    have k: "k = b - Suc a" using Suc.hyps(2) by simp
    have ge: "Suc a \<le> j" if "j \<in> set (filter (\<lambda>j. P (t ! j)) [Suc a..<b])" for j
      using that by simp
    have "find (\<lambda>(index, point). P point) (enumerate (Suc n) (drop (Suc a) (take b t))) =
           (case filter (\<lambda>j. P (t ! j)) [Suc a..<b] of
              [] \<Rightarrow> None
            | j # js \<Rightarrow> Some (j - Suc a + Suc n, t ! j))"
      by (rule Suc.hyps(1)[OF k Suc.prems])
    also have "\<dots> = (case filter (\<lambda>j. P (t ! j)) [Suc a..<b] of
              [] \<Rightarrow> None
            | j # js \<Rightarrow> Some (j - a + n, t ! j))"
    proof (cases "filter (\<lambda>j. P (t ! j)) [Suc a..<b]")
      case Nil
      then show ?thesis by simp
    next
      case (Cons j js)
      then have "Suc a \<le> j" using ge[of j] by simp
      then have "j - Suc a + Suc n = j - a + n" by simp
      with Cons show ?thesis by simp
    qed
    finally show ?thesis using False by (simp add: d u)
  qed
qed

lemma project_last_maximum_eq:
  assumes "lm < length t"
  shows "project_last_maximum_on_curve t lm =
           Inr (case filter (\<lambda>j. t ! lm < t ! j) [lm + 10..<length t - 10] of
                  [] \<Rightarrow> None
                | j # js \<Rightarrow> Some j)"
proof -
  have i: "py_index t (int lm) = Inr (t ! lm)" using assms by (simp add: py_index_def)
  have f: "find (\<lambda>(index, point). t ! lm < point)
             (enumerate 0 (drop (lm + 10) (take (length t - 10) t))) =
           (case filter (\<lambda>j. t ! lm < t ! j) [lm + 10..<length t - 10] of
              [] \<Rightarrow> None
            | j # js \<Rightarrow> Some (j - (lm + 10) + 0, t ! j))"
    by (rule find_enumerate_slice) simp
  show ?thesis
  proof (cases "filter (\<lambda>j. t ! lm < t ! j) [lm + 10..<length t - 10]")
    case Nil
    with f i show ?thesis
      by (simp add: project_last_maximum_on_curve_def py_slice_def)
  next
    case (Cons j js)
    then have "j \<in> set (filter (\<lambda>j. t ! lm < t ! j) [lm + 10..<length t - 10])" by simp
    then have "lm + 10 \<le> j" by simp
    then have "lm + (j - (lm + 10)) + 10 = j" by simp
    with f i Cons show ?thesis
      by (simp add: project_last_maximum_on_curve_def py_slice_def)
  qed
qed

lemma get_mcv_eq:
  assumes "get_end_of_mcv_domain t = Inr e"
  shows "get_mcv t m = Inr (np_round (np_mean (py_slice t m (spec_mcv_upper_bound t m e))) 2)"
proof -
  from get_local_maxima_accepted[of "py_slice t m e" m] obtain lms where
    lms: "get_local_maxima (py_slice t m e) m = Inr lms"
    and rng: "\<forall>a\<in>set lms. \<exists>p. a = p + m \<and> 0 < p \<and> p + 11 < length (py_slice t m e)"
    by blast
  show ?thesis
  proof (cases lms)
    case Nil
    with lms assms show ?thesis by (simp add: get_mcv_def spec_mcv_upper_bound_def)
  next
    case (Cons a as)
    then have "last lms \<in> set lms" by simp
    with rng obtain p where p: "last lms = p + m" "p + 11 < length (py_slice t m e)" by blast
    have "length (py_slice t m e) \<le> length t - m" by (simp add: py_slice_def)
    with p have lt: "last lms < length t" by simp
    note pr = project_last_maximum_eq[OF lt]
    show ?thesis
    proof (cases "filter (\<lambda>j. t ! last lms < t ! j) [last lms + 10..<length t - 10]")
      case Nil
      with pr lms assms Cons show ?thesis
        by (simp add: get_mcv_def spec_mcv_upper_bound_def average_ends_def)
    next
      case c: (Cons j js)
      then have "j \<in> set (filter (\<lambda>j. t ! last lms < t ! j) [last lms + 10..<length t - 10])"
        by simp
      then have "last lms + 10 \<le> j" by simp
      then have "j \<noteq> 0" by simp
      with c pr lms assms Cons show ?thesis
        by (simp add: get_mcv_def spec_mcv_upper_bound_def average_ends_def)
    qed
  qed
qed

lemma sqrt_limit:
  assumes "0 \<le> v"
  shows "(5 / 2 * sqrt v < d) = (0 < d \<and> 25 / 4 * v < d\<^sup>2)"
proof (cases "0 < d")
  case False
  have "0 \<le> sqrt v" using assms by simp
  then have "\<not> 5 / 2 * sqrt v < d" using False by linarith
  with False show ?thesis by blast
next
  case True
  have "sqrt (25 / 4 * v) = sqrt (25 / 4) * sqrt v" by (rule real_sqrt_mult)
  moreover have "sqrt (25 / 4) = 5 / 2" by (rule real_sqrt_unique) (simp_all add: power2_eq_square)
  ultimately have 1: "5 / 2 * sqrt v = sqrt (25 / 4 * v)" by simp
  have 2: "d = sqrt (d\<^sup>2)" using True by simp
  have "(5 / 2 * sqrt v < d) = (sqrt (25 / 4 * v) < sqrt (d\<^sup>2))"
    using 1 2 by presburger
  also have "\<dots> = (25 / 4 * v < d\<^sup>2)" by (rule real_sqrt_less_iff)
  finally show ?thesis using True by blast
qed

lemma limit_test:
  assumes "0 \<le> v"
  shows "np_greater d (np_times (5 / 2) (Fin (sqrt v))) = (0 < d \<and> 25 / 4 * v < d\<^sup>2)"
  unfolding np_greater_def np_times_def using sqrt_limit[OF assms] by simp

lemma surge_smoothed: "get_smoothed_trace surge_crank 5 = Inr surge_trace"
  by (simp add: get_smoothed_trace_def surge_crank_def surge_profile_def np_argmin_def
      py_slice_def rolling_mean_def surge_trace_def)

lemma surge_argmin: "np_argmin surge_trace = Inr (Suc 0)"
  by (simp add: np_argmin_def surge_trace_def)

lemma surge_diff:
  "get_diff_times_10 (py_slice surge_trace (Suc 0) (length surge_trace - 30)) =
     [30, 5, 5, 5, 5, - 3, - 5, - 7, - 9, - 11, 0, 0, 0, 0, 0, 0, 0, 31]"
  by (simp add: get_diff_times_10_def py_slice_def surge_trace_def)

lemma surge_std:
  "np_std [30, 5, 5, 5, 5, - 3, - 5, - 7, - 9, - 11, 0, 0, 0, 0, 0, 0, 0, 31] =
     Fin (sqrt (9578 / 81))"
  by (simp add: np_std_def power2_eq_square)

lemma surge_domain_end: "get_end_of_mcv_domain surge_trace = Inr 18"
  by (simp add: get_end_of_mcv_domain_def surge_argmin surge_diff surge_std limit_test
      power2_eq_square)

lemma surge_slice:
  "py_slice surge_trace (Suc 0) 18 =
     [3, 6, 13 / 2, 7, 15 / 2, 8, 77 / 10, 36 / 5, 13 / 2, 28 / 5, 9 / 2, 9 / 2, 9 / 2,
      9 / 2, 9 / 2, 9 / 2, 9 / 2]"
  by (simp add: py_slice_def surge_trace_def)

lemma surge_local_maxima: "get_local_maxima (py_slice surge_trace (Suc 0) 18) (Suc 0) = Inr [6]"
  unfolding surge_slice
  by (simp add: get_local_maxima_def argrelextrema_greater_def py_slice_def
      peak_accepted_def py_index_def not_previous_def)

lemma surge_upper_bound: "spec_mcv_upper_bound surge_trace (Suc 0) 18 = 20"
  by (simp add: spec_mcv_upper_bound_def surge_local_maxima)
    (simp add: surge_trace_def)

lemma surge_mean: "np_mean (py_slice surge_trace (Suc 0) 20) = Fin (543 / 95)"
  by (simp add: np_mean_def py_slice_def surge_trace_def)

lemma surge_round: "np_round (Fin (543 / 95)) 2 = Fin (143 / 25)"
proof -
  have "\<lfloor>543 / 95 * 100 :: real\<rfloor> = 571" by (simp add: floor_eq_iff)
  then have "rint (543 / 95 * 100) = 572" by (simp add: rint_def Let_def)
  then show ?thesis by (simp add: np_round_def)
qed

text \<open>
  Claim C1. For every crank whose domain end detection succeeds, the \<open>mcv\<close> field of the
  feature record is the mean of \<^verbatim>\<open>smoothed_trace[min_index:upper_bound]\<close> rounded to 2
  decimal places, where the upper bound is the domain end when no local maximum is accepted
  in \<^verbatim>\<open>smoothed_trace[min_index:domain_end]\<close>, and otherwise the absolute index of the
  first sample of \<^verbatim>\<open>smoothed_trace[last_maximum+10 : len-10]\<close> that strictly exceeds the
  sample at the last maximum, or the domain end when there is no such sample.
\<close>

theorem mcv_is_rounded_mean:
  assumes "get_smoothed_trace c 5 = Inr t" and "np_argmin t = Inr m"
    and "get_end_of_mcv_domain t = Inr e" and "time c = Some ts"
  shows "\<exists>features. extract_features c = Inr features \<and>
           features ''mcv'' =
             Some (PFloat (np_round (np_mean (py_slice t m (spec_mcv_upper_bound t m e))) 2))"
proof -
  from np_argmin_spec[OF assms(2)] have "t \<noteq> []" by auto
  then have "get_lvv t = Inr (Min (set t))" by (rule get_lvv_eq)
  with assms get_iv_eq[OF assms(2)] get_mcv_eq[OF assms(3), of m] show ?thesis
    by (simp add: extract_features_def)
qed

theorem mcv_is_rounded_mean_witness:
  "\<exists>features. extract_features surge_crank = Inr features \<and>
     features ''mcv'' = Some (PFloat (Fin (143 / 25))) \<and>
     get_end_of_mcv_domain surge_trace = Inr 18 \<and>
     get_local_maxima (py_slice surge_trace 1 18) 1 = Inr [6] \<and>
     spec_mcv_upper_bound surge_trace 1 18 = 20"
proof -
  have ts: "time surge_crank = Some (PStr ''2018-11-26T07:36'')"
    by (simp add: surge_crank_def)
  from mcv_is_rounded_mean[OF surge_smoothed surge_argmin surge_domain_end ts]
  show ?thesis
    using surge_domain_end surge_local_maxima
    by (simp add: surge_upper_bound surge_mean surge_round)
qed

section \<open>Peaks among the first ten samples\<close>

lemma surge_left_sample:
  "py_index (py_slice surge_trace (Suc 0) 18) (5 - 10) = Inr (surge_trace ! 13)"
  unfolding surge_slice by (simp add: py_index_def surge_trace_def)

text \<open>
  Claim C4 says that every returned index \<open>p + min_index\<close> has the sample ten positions
  before \<open>p\<close> below the sample at \<open>p\<close>. Lemma \<open>get_local_maxima_accepted\<close> is what the code
  guarantees: the indices are ascending and at least 10 apart, every \<open>p\<close> is a strict local
  maximum of the trace without its last 10 samples, and the sample tested on the left is
  the one at \<open>p - 10\<close> only when \<open>10 \<le> p\<close>. For a peak among the first ten samples
  \<^verbatim>\<open>smoothed_trace[peak - 10]\<close> is a negative index and reads the sample at
  \<open>length + p - 10\<close>, which lies after the peak. On the trace with a single spike at index 1
  the index 1 is returned although no sample lies ten positions before it: the sample
  tested is the one at index 4. The same happens inside \<open>extract_features\<close>: for the crank
  with the late surge the slice \<^verbatim>\<open>smoothed_trace[1:18]\<close> has its peak at position 5, which
  is accepted against the sample at index 13 of the trace, seven samples after the peak.
\<close>

theorem spike_accepted_by_wrapped_index:
  "get_local_maxima spike_trace 0 = Inr [1] \<and>
   py_index spike_trace (1 - 10) = Inr (spike_trace ! 4) \<and>
   peak_accepted spike_trace 1 = Inr True \<and>
   get_smoothed_trace surge_crank 5 = Inr surge_trace \<and>
   get_end_of_mcv_domain surge_trace = Inr 18 \<and>
   get_local_maxima (py_slice surge_trace 1 18) 1 = Inr [5 + 1] \<and>
   py_index (py_slice surge_trace 1 18) (5 - 10) = Inr (surge_trace ! 13)"
proof -
  have "get_local_maxima spike_trace 0 = Inr [1] \<and>
        py_index spike_trace (1 - 10) = Inr (spike_trace ! 4) \<and>
        peak_accepted spike_trace 1 = Inr True"
    by (simp add: get_local_maxima_def argrelextrema_greater_def py_slice_def spike_trace_def
        peak_accepted_def py_index_def not_previous_def)
  then show ?thesis
    using surge_smoothed surge_domain_end surge_local_maxima surge_left_sample by simp
qed

end
